theory Spec2Isabelle
  imports Main "HOL-Library.Word"
begin

section \<open>Common data\<close>

type_synonym byte = "8 word"
type_synonym bytes = "byte list"

text \<open>
  The error values the two source files return: \<open>io.EOF\<close>, \<open>io.ErrClosedPipe\<close>,
  \<open>io.ErrShortWrite\<close>, the pipe's own \<open>ErrTimeout\<close>, and any other error
  that a collaborator (sink, transport, utls, decryption) hands back, kept apart by a number.
\<close>

datatype error = EOF | ErrClosedPipe | ErrTimeout | ErrShortWrite | OtherError nat

text \<open>
  Go's builtin \<open>copy(dst, src)\<close>: the first \<open>min (len dst) (len src)\<close> bytes of
  \<open>src\<close> overwrite the start of \<open>dst\<close>; the length of \<open>dst\<close> never changes.
  The function returns the new contents of \<open>dst\<close>.
\<close>

definition copy_bytes :: "'a list \<Rightarrow> 'a list \<Rightarrow> 'a list" where
  "copy_bytes dst src = take (length dst) src @ drop (length src) dst"

text \<open>The slice expression \<open>xs[lo:hi]\<close> for indices in range.\<close>

definition slice :: "nat \<Rightarrow> nat \<Rightarrow> 'a list \<Rightarrow> 'a list" where
  "slice lo hi xs = take (hi - lo) (drop lo xs)"

section \<open>The buffered pipe (package multiplex)\<close>

text \<open>\<open>const BUF_SIZE_LIMIT = 1 << 20 * 500\<close>: in Go \<open><<\<close> and \<open>*\<close> have the same
  precedence and associate to the left.\<close>

definition BUF_SIZE_LIMIT :: nat where
  "BUF_SIZE_LIMIT = push_bit 20 1 * 500"

text \<open>
  \<open>time.Time\<close> is an instant counted in nanoseconds from the zero instant of the type
  (so \<open>IsZero\<close> is equality with 0); \<open>time.Duration\<close> is a signed 64-bit count of
  nanoseconds, and \<open>time.Until\<close> saturates at its two ends.
\<close>

type_synonym time = int
type_synonym duration = int

definition IsZero :: "time \<Rightarrow> bool" where
  "IsZero t \<longleftrightarrow> t = 0"

definition maxDuration :: duration where
  "maxDuration = 2 ^ 63 - 1"

definition minDuration :: duration where
  "minDuration = - (2 ^ 63)"

definition Until :: "time \<Rightarrow> time \<Rightarrow> duration" where
  "Until t now = max minDuration (min maxDuration (t - now))"

text \<open>
  The struct \<open>bufferedPipe\<close>. The field \<open>buf\<close> is a pointer that is nil until the
  first Read, WriteTo or Write allocates the buffer. The field \<open>rwCond\<close> (the lock and
  its condition variable) has no data of its own: it is the discipline of the cycles and of
  the scheduler below.
\<close>

record bufferedPipe =
  buf :: "bytes option"
  closed :: bool
  rDeadline :: time
  wtTimeout :: duration

definition NewBufferedPipe :: bufferedPipe where
  "NewBufferedPipe = \<lparr>buf = None, closed = False, rDeadline = 0, wtTimeout = 0\<rparr>"

text \<open>\<open>if p.buf == nil { p.buf = new(bytes.Buffer) }\<close>\<close>

definition alloc :: "bufferedPipe \<Rightarrow> bufferedPipe" where
  "alloc p = (case buf p of None \<Rightarrow> p\<lparr>buf := Some []\<rparr> | Some b \<Rightarrow> p)"

text \<open>The unread bytes of the buffer, and \<open>p.buf.Len()\<close>.\<close>

definition contents :: "bufferedPipe \<Rightarrow> bytes" where
  "contents p = (case buf p of None \<Rightarrow> [] | Some b \<Rightarrow> b)"

definition Len :: "bufferedPipe \<Rightarrow> nat" where
  "Len p = length (contents p)"

text \<open>
  Every operation holds the lock from its entry to its return, except while it is parked in
  \<open>rwCond.Wait()\<close>. One pass through the body of an operation's \<open>for\<close> loop, up
  to its return or its \<open>Wait\<close>, is therefore atomic, and it is modelled as one function
  from the pipe to a \<open>cycle\<close>: the pipe afterwards, whether the call returned (and what),
  parked in \<open>Wait\<close> or panicked, whether \<open>rwCond.Broadcast()\<close> was called, and the
  durations handed to \<open>time.AfterFunc(d, p.rwCond.Broadcast)\<close>.
\<close>

datatype 'a outcome = Returns 'a | Waits | Panics

record 'a cycle =
  pipe_after :: bufferedPipe
  outcome :: "'a outcome"
  broadcast :: bool
  timers :: "duration list"

subsection \<open>Write\<close>

text \<open>
  \<open>bytes.Buffer.Write\<close> appends all of the input and returns its length and a nil error.
  The allocation at the entry of the call is the identity on a pipe that has its buffer, so
  it is harmless to repeat it in each cycle.
\<close>

definition Write_cycle :: "bufferedPipe \<Rightarrow> bytes \<Rightarrow> (nat \<times> error option) cycle" where
  "Write_cycle p0 input =
     (let p = alloc p0 in
      if closed p then
        \<lparr>pipe_after = p, outcome = Returns (0, Some ErrClosedPipe), broadcast = False, timers = []\<rparr>
      else if Len p \<le> BUF_SIZE_LIMIT then
        \<lparr>pipe_after = p\<lparr>buf := Some (contents p @ input)\<rparr>,
         outcome = Returns (length input, None), broadcast = True, timers = []\<rparr>
      else
        \<lparr>pipe_after = p, outcome = Waits, broadcast = False, timers = []\<rparr>)"

subsection \<open>Read\<close>

text \<open>
  \<open>bytes.Buffer.Read(target)\<close>, from the unread bytes \<open>b\<close>: the unread bytes left,
  the count, the error and the new contents of \<open>target\<close>. On an empty buffer it
  returns \<open>io.EOF\<close>, or nil for an empty target.
\<close>

definition Buffer_Read :: "bytes \<Rightarrow> bytes \<Rightarrow> bytes \<times> nat \<times> error option \<times> bytes" where
  "Buffer_Read b target =
     (if b = [] then
        (if target = [] then ([], 0, None, target) else ([], 0, Some EOF, target))
      else
        (let n = min (length target) (length b)
         in (drop n b, n, None, copy_bytes target b)))"

text \<open>
  One cycle of \<open>Read\<close> at the instant \<open>now\<close> that \<open>time.Until\<close> reads. The value
  returned is the count, the error and the contents of \<open>target\<close> after the call.
\<close>

definition Read_cycle ::
  "time \<Rightarrow> bufferedPipe \<Rightarrow> bytes \<Rightarrow> (nat \<times> error option \<times> bytes) cycle" where
  "Read_cycle now p0 target =
     (let p = alloc p0 in
      if closed p \<and> Len p = 0 then
        \<lparr>pipe_after = p, outcome = Returns (0, Some EOF, target), broadcast = False, timers = []\<rparr>
      else if \<not> IsZero (rDeadline p) \<and> Until (rDeadline p) now \<le> 0 then
        \<lparr>pipe_after = p, outcome = Returns (0, Some ErrTimeout, target), broadcast = False,
         timers = []\<rparr>
      else
        (let ds = (if \<not> IsZero (rDeadline p) then [Until (rDeadline p) now] else []) in
         if Len p > 0 then
           (case Buffer_Read (contents p) target of
              (b', n, err, target') \<Rightarrow>
                \<lparr>pipe_after = p\<lparr>buf := Some b'\<rparr>, outcome = Returns (n, err, target'),
                 broadcast = True, timers = ds\<rparr>)
         else
           \<lparr>pipe_after = p, outcome = Waits, broadcast = False, timers = ds\<rparr>))"

subsection \<open>WriteTo\<close>

text \<open>
  The sink is an \<open>io.Writer\<close> outside the repository: a call \<open>w.Write(b)\<close> answers
  with a count and an error. \<open>bytes.Buffer.WriteTo\<close> hands it all unread bytes, panics on
  a count larger than what it offered, keeps the bytes the sink did not take when the sink
  fails or writes short, and resets the buffer otherwise.
\<close>

type_synonym sink = "bytes \<Rightarrow> nat \<times> error option"

definition Buffer_WriteTo :: "bytes \<Rightarrow> sink \<Rightarrow> (bytes \<times> nat \<times> error option) option" where
  "Buffer_WriteTo b w =
     (if length b > 0 then
        (case w b of
           (m, e) \<Rightarrow>
             if m > length b then None
             else (case e of
                     Some er \<Rightarrow> Some (drop m b, m, Some er)
                   | None \<Rightarrow>
                       if m \<noteq> length b then Some (drop m b, m, Some ErrShortWrite)
                       else Some ([], m, None)))
      else Some ([], 0, None))"

text \<open>
  One cycle of \<open>WriteTo\<close>. \<open>now\<close> is the instant read by \<open>time.Until\<close> and
  \<open>now'\<close> the one read by \<open>time.Now()\<close> further down; \<open>n\<close> is the named result
  that accumulates over the cycles, and the second component is its value after the cycle.
  The \<open>None\<close> of \<open>Buffer_WriteTo\<close> is its panic.
\<close>

definition WriteTo_cycle ::
  "time \<Rightarrow> time \<Rightarrow> bufferedPipe \<Rightarrow> sink \<Rightarrow> int \<Rightarrow> (int \<times> error option) cycle \<times> int" where
  "WriteTo_cycle now now' p0 w n =
     (let p = alloc p0 in
      if closed p \<and> Len p = 0 then
        (\<lparr>pipe_after = p, outcome = Returns (0, Some EOF), broadcast = False, timers = []\<rparr>, n)
      else if \<not> IsZero (rDeadline p) \<and> Until (rDeadline p) now \<le> 0 then
        (\<lparr>pipe_after = p, outcome = Returns (0, Some ErrTimeout), broadcast = False, timers = []\<rparr>, n)
      else
        (let ds1 = (if \<not> IsZero (rDeadline p) \<and> wtTimeout p = 0
                    then [Until (rDeadline p) now] else []);
             p1 = (if wtTimeout p \<noteq> 0 then p\<lparr>rDeadline := now' + wtTimeout p\<rparr> else p);
             ds = ds1 @ (if wtTimeout p \<noteq> 0 then [wtTimeout p] else [])
         in
         if Len p1 > 0 then
           (case Buffer_WriteTo (contents p1) w of
              None \<Rightarrow>
                (\<lparr>pipe_after = p1, outcome = Panics, broadcast = False, timers = ds\<rparr>, n)
            | Some (b', written, er) \<Rightarrow>
                (case er of
                   Some e \<Rightarrow>
                     (\<lparr>pipe_after = p1\<lparr>buf := Some b'\<rparr>,
                       outcome = Returns (n + int written, Some e),
                       broadcast = True, timers = ds\<rparr>, n + int written)
                 | None \<Rightarrow>
                     (\<lparr>pipe_after = p1\<lparr>buf := Some b'\<rparr>, outcome = Waits,
                       broadcast = True, timers = ds\<rparr>, n + int written)))
         else
           (\<lparr>pipe_after = p1, outcome = Waits, broadcast = False, timers = ds\<rparr>, n)))"

subsection \<open>Close and the two setters\<close>

text \<open>None of the three has a loop or waits; each is a single cycle that returns.\<close>

definition Close :: "bufferedPipe \<Rightarrow> error option cycle" where
  "Close p =
     \<lparr>pipe_after = p\<lparr>closed := True\<rparr>, outcome = Returns None, broadcast = True, timers = []\<rparr>"

definition SetReadDeadline :: "bufferedPipe \<Rightarrow> time \<Rightarrow> unit cycle" where
  "SetReadDeadline p t =
     \<lparr>pipe_after = p\<lparr>rDeadline := t\<rparr>, outcome = Returns (), broadcast = True, timers = []\<rparr>"

definition SetWriteToTimeout :: "bufferedPipe \<Rightarrow> duration \<Rightarrow> unit cycle" where
  "SetWriteToTimeout p d =
     \<lparr>pipe_after = p\<lparr>wtTimeout := d\<rparr>, outcome = Returns (), broadcast = True, timers = []\<rparr>"

subsection \<open>Calls running concurrently on one pipe\<close>

text \<open>
  A thread is one call on the pipe. It is \<open>Ready\<close> when it runs or may run (it has the
  lock, or queues for it), \<open>Waiting\<close> when it is parked in \<open>rwCond.Wait()\<close>, and
  \<open>Done\<close> with its result once it has returned. The call of a \<open>WriteTo\<close> carries
  the running value of its result \<open>n\<close>.
\<close>

datatype call =
    OpRead bytes
  | OpWriteTo sink int
  | OpWrite bytes
  | OpClose
  | OpSetReadDeadline time
  | OpSetWriteToTimeout duration

datatype retval =
    RetRead nat "error option" bytes
  | RetWriteTo int "error option"
  | RetWrite nat "error option"
  | RetClose "error option"
  | RetUnit
  | RetPanic

datatype status = Ready | Waiting | Done retval

record thread =
  op :: call
  status :: status

text \<open>
  The whole system: the pipe, the clock, the threads, and the instants at which the armed
  timers will call \<open>Broadcast\<close>.
\<close>

record system =
  pipe :: bufferedPipe
  clock :: time
  threads :: "thread list"
  pending :: "time list"

text \<open>\<open>Broadcast\<close> wakes every thread parked in \<open>Wait\<close>; each then queues for the lock.\<close>

definition wake_all :: "thread list \<Rightarrow> thread list" where
  "wake_all ts = map (\<lambda>t. if status t = Waiting then t\<lparr>status := Ready\<rparr> else t) ts"

text \<open>
  The end of a cycle of thread \<open>i\<close>: the pipe is replaced, a broadcast wakes the threads
  that were parked before thread \<open>i\<close> itself parks or returns, and the timers are armed
  relative to the clock.
\<close>

definition commit ::
  "nat \<Rightarrow> system \<Rightarrow> bufferedPipe \<Rightarrow> thread \<Rightarrow> bool \<Rightarrow> duration list \<Rightarrow> system" where
  "commit i s p' t' bc ds =
     s\<lparr>pipe := p',
       threads := (if bc then wake_all (threads s) else threads s)[i := t'],
       pending := pending s @ map (\<lambda>d. clock s + d) ds\<rparr>"

definition status_of :: "('a \<Rightarrow> retval) \<Rightarrow> 'a outcome \<Rightarrow> status" where
  "status_of f out = (case out of Returns r \<Rightarrow> Done (f r) | Waits \<Rightarrow> Waiting | Panics \<Rightarrow> Done RetPanic)"

text \<open>Thread \<open>i\<close> takes the lock and runs one cycle of its call; only a ready thread can.\<close>

definition run :: "nat \<Rightarrow> system \<Rightarrow> system" where
  "run i s =
     (if i < length (threads s) \<and> status (threads s ! i) = Ready then
        (case op (threads s ! i) of
           OpRead target \<Rightarrow>
             (let c = Read_cycle (clock s) (pipe s) target in
              commit i s (pipe_after c)
                \<lparr>op = OpRead target,
                 status = status_of (\<lambda>(n, e, tg). RetRead n e tg) (outcome c)\<rparr>
                (broadcast c) (timers c))
         | OpWriteTo w n \<Rightarrow>
             (case WriteTo_cycle (clock s) (clock s) (pipe s) w n of
                (c, n') \<Rightarrow>
                  commit i s (pipe_after c)
                    \<lparr>op = OpWriteTo w n',
                     status = status_of (\<lambda>(k, e). RetWriteTo k e) (outcome c)\<rparr>
                    (broadcast c) (timers c))
         | OpWrite input \<Rightarrow>
             (let c = Write_cycle (pipe s) input in
              commit i s (pipe_after c)
                \<lparr>op = OpWrite input,
                 status = status_of (\<lambda>(n, e). RetWrite n e) (outcome c)\<rparr>
                (broadcast c) (timers c))
         | OpClose \<Rightarrow>
             (let c = Close (pipe s) in
              commit i s (pipe_after c)
                \<lparr>op = OpClose, status = status_of RetClose (outcome c)\<rparr>
                (broadcast c) (timers c))
         | OpSetReadDeadline t \<Rightarrow>
             (let c = SetReadDeadline (pipe s) t in
              commit i s (pipe_after c)
                \<lparr>op = OpSetReadDeadline t, status = status_of (\<lambda>_. RetUnit) (outcome c)\<rparr>
                (broadcast c) (timers c))
         | OpSetWriteToTimeout d \<Rightarrow>
             (let c = SetWriteToTimeout (pipe s) d in
              commit i s (pipe_after c)
                \<lparr>op = OpSetWriteToTimeout d, status = status_of (\<lambda>_. RetUnit) (outcome c)\<rparr>
                (broadcast c) (timers c)))
      else s)"

text \<open>
  Time passes to the instant \<open>t\<close> (never backwards); every timer that is due fires once,
  and its \<open>Broadcast\<close> wakes the parked threads.
\<close>

definition tick :: "time \<Rightarrow> system \<Rightarrow> system" where
  "tick t s =
     (let t' = max (clock s) t;
          due = filter (\<lambda>f. f \<le> t') (pending s)
      in s\<lparr>clock := t',
           threads := (if due = [] then threads s else wake_all (threads s)),
           pending := filter (\<lambda>f. \<not> f \<le> t') (pending s)\<rparr>)"

text \<open>A new call on the pipe starts as a ready thread.\<close>

definition spawn :: "call \<Rightarrow> system \<Rightarrow> system" where
  "spawn c s = s\<lparr>threads := threads s @ [\<lparr>op = c, status = Ready\<rparr>]\<rparr>"

datatype action = Run nat | Tick time | Spawn call

fun step :: "action \<Rightarrow> system \<Rightarrow> system" where
  "step (Run i) s = run i s"
| "step (Tick t) s = tick t s"
| "step (Spawn c) s = spawn c s"

text \<open>An interleaving is a list of actions, carried out from left to right.\<close>

fun exec :: "action list \<Rightarrow> system \<Rightarrow> system" where
  "exec [] s = s"
| "exec (a # as) s = exec as (step a s)"

text \<open>
  The results a \<open>Write\<close> can have, over every interleaving: none yet, the whole input
  written, or the closed-pipe error on a pipe that is closed.
\<close>

definition write_inv :: "nat \<Rightarrow> bytes \<Rightarrow> system \<Rightarrow> bool" where
  "write_inv i inp s \<longleftrightarrow>
     i < length (threads s) \<and> op (threads s ! i) = OpWrite inp \<and>
     (status (threads s ! i) = Ready \<or> status (threads s ! i) = Waiting \<or>
      status (threads s ! i) = Done (RetWrite (length inp) None) \<or>
      (status (threads s ! i) = Done (RetWrite 0 (Some ErrClosedPipe)) \<and> closed (pipe s)))"

section \<open>Concrete pipes and systems\<close>

definition closed_pipe :: bufferedPipe where
  "closed_pipe = \<lparr>buf = None, closed = True, rDeadline = 5, wtTimeout = 0\<rparr>"


definition over_pipe :: bufferedPipe where
  "over_pipe =
     \<lparr>buf = Some (replicate (Suc BUF_SIZE_LIMIT) 0), closed = False, rDeadline = 0, wtTimeout = 0\<rparr>"

definition blocked_writer :: system where
  "blocked_writer =
     \<lparr>pipe = over_pipe, clock = 1,
      threads = [\<lparr>op = OpWrite [1, 2], status = Waiting\<rparr>, \<lparr>op = OpClose, status = Ready\<rparr>],
      pending = []\<rparr>"

definition ready_writer :: system where
  "ready_writer =
     \<lparr>pipe = over_pipe, clock = 1,
      threads = [\<lparr>op = OpWrite [1, 2], status = Ready\<rparr>],
      pending = []\<rparr>"

definition parked_writer :: system where
  "parked_writer =
     \<lparr>pipe = over_pipe, clock = 1,
      threads = [\<lparr>op = OpWrite [1, 2], status = Waiting\<rparr>, \<lparr>op = OpRead [0], status = Ready\<rparr>],
      pending = []\<rparr>"

section \<open>Basic facts\<close>

lemma BUF_SIZE_LIMIT_value: "BUF_SIZE_LIMIT = 524288000"
  by (simp add: BUF_SIZE_LIMIT_def)

lemma alloc_fields [simp]:
  "closed (alloc p) = closed p"
  "rDeadline (alloc p) = rDeadline p"
  "wtTimeout (alloc p) = wtTimeout p"
  "contents (alloc p) = contents p"
  "Len (alloc p) = Len p"
  by (simp_all add: alloc_def contents_def Len_def split: option.splits)

lemma alloc_buf [simp]: "buf (alloc p) = Some (contents p)"
  by (simp add: alloc_def contents_def split: option.splits)

lemma alloc_idem [simp]: "alloc (alloc p) = alloc p"
  by (simp add: alloc_def split: option.splits)

lemma contents_buf_update [simp]: "contents (p\<lparr>buf := Some b\<rparr>) = b"
  by (simp add: contents_def)

lemma Len_buf_update [simp]: "Len (p\<lparr>buf := Some b\<rparr>) = length b"
  by (simp add: Len_def)

lemma Write_cycle_closed:
  "closed p \<Longrightarrow> Write_cycle p input =
     \<lparr>pipe_after = alloc p, outcome = Returns (0, Some ErrClosedPipe), broadcast = False, timers = []\<rparr>"
  by (simp add: Write_cycle_def)

lemma Write_cycle_room:
  "\<not> closed p \<Longrightarrow> Len p \<le> BUF_SIZE_LIMIT \<Longrightarrow> Write_cycle p input =
     \<lparr>pipe_after = (alloc p)\<lparr>buf := Some (contents p @ input)\<rparr>,
      outcome = Returns (length input, None), broadcast = True, timers = []\<rparr>"
  by (simp add: Write_cycle_def)

lemma Write_cycle_full:
  "\<not> closed p \<Longrightarrow> BUF_SIZE_LIMIT < Len p \<Longrightarrow> Write_cycle p input =
     \<lparr>pipe_after = alloc p, outcome = Waits, broadcast = False, timers = []\<rparr>"
  by (simp add: Write_cycle_def)

lemma Write_cycle_error:
  "outcome (Write_cycle p input) = Returns (n, Some e) \<Longrightarrow> closed p \<and> e = ErrClosedPipe \<and> n = 0"
  by (simp add: Write_cycle_def Let_def split: if_splits)




lemma Read_cycle_eof:
  "closed p \<Longrightarrow> Len p = 0 \<Longrightarrow> Read_cycle now p target =
     \<lparr>pipe_after = alloc p, outcome = Returns (0, Some EOF, target), broadcast = False, timers = []\<rparr>"
  by (simp add: Read_cycle_def)

lemma WriteTo_cycle_eof:
  "closed p \<Longrightarrow> Len p = 0 \<Longrightarrow> WriteTo_cycle now now' p w n =
     (\<lparr>pipe_after = alloc p, outcome = Returns (0, Some EOF), broadcast = False, timers = []\<rparr>, n)"
  by (simp add: WriteTo_cycle_def)

lemma Until_pos: "0 < Until t now \<longleftrightarrow> now < t"
  unfolding Until_def minDuration_def maxDuration_def by simp linarith

lemma Until_nonpos: "Until t now \<le> 0 \<longleftrightarrow> t \<le> now"
  using Until_pos [of t now] by linarith

lemma Until_le: "now < t \<Longrightarrow> now + Until t now \<le> t"
  unfolding Until_def minDuration_def maxDuration_def by simp

lemma Until_exact: "now < t \<Longrightarrow> t - now \<le> maxDuration \<Longrightarrow> now + Until t now = t"
  unfolding Until_def minDuration_def maxDuration_def by simp

lemma Read_cycle_timeout:
  "\<not> (closed p \<and> Len p = 0) \<Longrightarrow> rDeadline p \<noteq> 0 \<Longrightarrow> rDeadline p \<le> now \<Longrightarrow>
   Read_cycle now p target =
     \<lparr>pipe_after = alloc p, outcome = Returns (0, Some ErrTimeout, target), broadcast = False, timers = []\<rparr>"
  by (simp add: Read_cycle_def IsZero_def Until_nonpos Let_def)

lemma Read_cycle_no_deadline:
  "rDeadline p = 0 \<Longrightarrow> outcome (Read_cycle now p target) \<noteq> Returns (n, Some ErrTimeout, tg)"
  by (simp add: Read_cycle_def IsZero_def Let_def Buffer_Read_def split: prod.splits)

lemma Read_cycle_wait:
  "\<not> closed p \<Longrightarrow> Len p = 0 \<Longrightarrow> rDeadline p \<noteq> 0 \<Longrightarrow> now < rDeadline p \<Longrightarrow>
   Read_cycle now p target =
     \<lparr>pipe_after = alloc p, outcome = Waits, broadcast = False, timers = [Until (rDeadline p) now]\<rparr>"
  by (simp add: Read_cycle_def IsZero_def Until_nonpos Let_def)

lemma Read_cycle_data:
  "0 < Len p \<Longrightarrow> rDeadline p = 0 \<or> now < rDeadline p \<Longrightarrow>
   Read_cycle now p target =
     \<lparr>pipe_after = (alloc p)\<lparr>buf := Some (drop (min (length target) (Len p)) (contents p))\<rparr>,
      outcome = Returns (min (length target) (Len p), None, copy_bytes target (contents p)),
      broadcast = True,
      timers = (if rDeadline p = 0 then [] else [Until (rDeadline p) now])\<rparr>"
  by (auto simp add: Read_cycle_def IsZero_def Let_def Buffer_Read_def Len_def Until_nonpos)

lemma Close_closed: "closed (pipe_after (Close p))"
  by (simp add: Close_def)

lemma Close_idem: "Close (pipe_after (Close p)) = Close p"
  by (simp add: Close_def)

lemma length_wake_all [simp]: "length (wake_all ts) = length ts"
  by (simp add: wake_all_def)

lemma nth_wake_all:
  "i < length ts \<Longrightarrow>
   wake_all ts ! i = (if status (ts ! i) = Waiting then (ts ! i)\<lparr>status := Ready\<rparr> else ts ! i)"
  by (simp add: wake_all_def)

lemma op_wake_all [simp]: "i < length ts \<Longrightarrow> op (wake_all ts ! i) = op (ts ! i)"
  by (simp add: nth_wake_all)

lemma status_wake_all:
  "i < length ts \<Longrightarrow>
   status (wake_all ts ! i) = (if status (ts ! i) = Waiting then Ready else status (ts ! i))"
  by (simp add: nth_wake_all)

lemma commit_simps [simp]:
  "pipe (commit j s p t bc ds) = p"
  "clock (commit j s p t bc ds) = clock s"
  "pending (commit j s p t bc ds) = pending s @ map (\<lambda>d. clock s + d) ds"
  "length (threads (commit j s p t bc ds)) = length (threads s)"
  by (simp_all add: commit_def)

lemma commit_nth_self:
  "j < length (threads s) \<Longrightarrow> threads (commit j s p t bc ds) ! j = t"
  by (simp add: commit_def)

lemma commit_nth_other:
  "i \<noteq> j \<Longrightarrow>
   threads (commit j s p t bc ds) ! i = (if bc then wake_all (threads s) else threads s) ! i"
  by (simp add: commit_def)

lemma run_cases: "run j s = s \<or> (\<exists>p t bc ds. run j s = commit j s p t bc ds)"
  by (simp add: run_def Let_def split: call.splits prod.splits) blast

lemma run_not_ready:
  "status (threads s ! i) \<noteq> Ready \<Longrightarrow> run i s = s"
  by (simp add: run_def)

lemma run_Write:
  "i < length (threads s) \<Longrightarrow> threads s ! i = \<lparr>op = OpWrite inp, status = Ready\<rparr> \<Longrightarrow>
   run i s =
     commit i s (pipe_after (Write_cycle (pipe s) inp))
       \<lparr>op = OpWrite inp,
        status = status_of (\<lambda>(n, e). RetWrite n e) (outcome (Write_cycle (pipe s) inp))\<rparr>
       (broadcast (Write_cycle (pipe s) inp)) (timers (Write_cycle (pipe s) inp))"
  by (simp add: run_def Let_def)

lemma run_Read:
  "i < length (threads s) \<Longrightarrow> threads s ! i = \<lparr>op = OpRead tg, status = Ready\<rparr> \<Longrightarrow>
   run i s =
     commit i s (pipe_after (Read_cycle (clock s) (pipe s) tg))
       \<lparr>op = OpRead tg,
        status = status_of (\<lambda>(n, e, t). RetRead n e t) (outcome (Read_cycle (clock s) (pipe s) tg))\<rparr>
       (broadcast (Read_cycle (clock s) (pipe s) tg)) (timers (Read_cycle (clock s) (pipe s) tg))"
  by (simp add: run_def Let_def)

lemma run_Close:
  "i < length (threads s) \<Longrightarrow> threads s ! i = \<lparr>op = OpClose, status = Ready\<rparr> \<Longrightarrow>
   run i s =
     commit i s ((pipe s)\<lparr>closed := True\<rparr>) \<lparr>op = OpClose, status = Done (RetClose None)\<rparr> True []"
  by (simp add: run_def Let_def Close_def status_of_def)

lemma closed_Read_cycle: "closed p \<Longrightarrow> closed (pipe_after (Read_cycle now p tg))"
  by (simp add: Read_cycle_def Let_def split: prod.splits)

lemma closed_Write_cycle: "closed p \<Longrightarrow> closed (pipe_after (Write_cycle p inp))"
  by (simp add: Write_cycle_def Let_def)

lemma closed_WriteTo_cycle: "closed p \<Longrightarrow> closed (pipe_after (fst (WriteTo_cycle now now' p w n)))"
  by (simp add: WriteTo_cycle_def Let_def split: option.splits prod.splits)

lemma closed_run: "closed (pipe s) \<Longrightarrow> closed (pipe (run j s))"
  using closed_WriteTo_cycle [of "pipe s" "clock s" "clock s"]
  by (simp add: run_def Let_def closed_Read_cycle closed_Write_cycle Close_def
      SetReadDeadline_def SetWriteToTimeout_def split: call.splits prod.splits) (metis fst_conv)

lemma closed_step: "closed (pipe s) \<Longrightarrow> closed (pipe (step a s))"
  by (cases a) (simp_all add: closed_run tick_def Let_def spawn_def)

lemma length_threads_step: "length (threads s) \<le> length (threads (step a s))"
proof (cases a)
  case (Run j)
  then show ?thesis using run_cases [of j s] by auto
qed (simp_all add: tick_def Let_def spawn_def)

text \<open>A step of anything but thread i leaves its call alone and can only wake it.\<close>

lemma step_other:
  assumes "i < length (threads s)" and "a \<noteq> Run i"
  shows "op (threads (step a s) ! i) = op (threads s ! i) \<and>
         status (threads (step a s) ! i) =
           (if status (threads s ! i) = Waiting \<and> status (threads (step a s) ! i) = Ready
            then Ready else status (threads s ! i))"
proof (cases a)
  case (Run j)
  with assms have ne: "i \<noteq> j" by simp
  from run_cases [of j s] show ?thesis
  proof
    assume "run j s = s" with Run show ?thesis by simp
  next
    assume "\<exists>p t bc ds. run j s = commit j s p t bc ds"
    then obtain p t bc ds where "run j s = commit j s p t bc ds" by blast
    with Run assms(1) ne show ?thesis
      by (simp add: commit_nth_other status_wake_all)
  qed
next
  case (Tick t)
  with assms(1) show ?thesis by (simp add: tick_def Let_def status_wake_all)
next
  case (Spawn c)
  with assms(1) show ?thesis by (simp add: spawn_def nth_append)
qed

lemma thread_eqI: "op t = c \<Longrightarrow> status t = st \<Longrightarrow> t = \<lparr>op = c, status = st\<rparr>"
  by (cases t) simp

lemma run_Write_closed:
  assumes "closed (pipe s)" "i < length (threads s)"
    and "op (threads s ! i) = OpWrite inp" "status (threads s ! i) = Ready"
  shows "threads (run i s) ! i = \<lparr>op = OpWrite inp, status = Done (RetWrite 0 (Some ErrClosedPipe))\<rparr>"
proof -
  have "threads s ! i = \<lparr>op = OpWrite inp, status = Ready\<rparr>"
    using assms(3,4) by (rule thread_eqI)
  then show ?thesis
    using assms(1,2)
    by (simp add: run_Write Write_cycle_closed commit_nth_self status_of_def)
qed

text \<open>
  Once the pipe is closed, a Write that is ready stays ready until it runs, and returns the
  closed-pipe error when it does, whatever the other threads and the clock do.
\<close>

lemma closed_write_step:
  assumes "closed (pipe s)" "i < length (threads s)"
    and "op (threads s ! i) = OpWrite inp"
    and "status (threads s ! i) = Ready \<or>
         status (threads s ! i) = Done (RetWrite 0 (Some ErrClosedPipe))"
  shows "closed (pipe (step a s)) \<and> i < length (threads (step a s)) \<and>
         op (threads (step a s) ! i) = OpWrite inp \<and>
         (status (threads (step a s) ! i) = Ready \<or>
          status (threads (step a s) ! i) = Done (RetWrite 0 (Some ErrClosedPipe)))"
proof -
  have c: "closed (pipe (step a s))" using assms(1) by (rule closed_step)
  have l: "i < length (threads (step a s))"
    using assms(2) length_threads_step [of s a] by linarith
  show ?thesis
  proof (cases "a = Run i")
    case True
    show ?thesis
    proof (cases "status (threads s ! i) = Ready")
      case True
      from run_Write_closed [OF assms(1-3) True] \<open>a = Run i\<close> c l show ?thesis by simp
    next
      case False
      then have "run i s = s" by (rule run_not_ready)
      with \<open>a = Run i\<close> assms show ?thesis by simp
    qed
  next
    case False
    from step_other [OF assms(2) False] assms(3,4) c l show ?thesis by auto
  qed
qed

lemma closed_write_exec:
  assumes "closed (pipe s)" "i < length (threads s)"
    and "op (threads s ! i) = OpWrite inp"
    and "status (threads s ! i) = Ready \<or>
         status (threads s ! i) = Done (RetWrite 0 (Some ErrClosedPipe))"
  shows "closed (pipe (exec acts s)) \<and> i < length (threads (exec acts s)) \<and>
         op (threads (exec acts s) ! i) = OpWrite inp \<and>
         (status (threads (exec acts s) ! i) = Ready \<or>
          status (threads (exec acts s) ! i) = Done (RetWrite 0 (Some ErrClosedPipe)))"
  using assms
proof (induction acts arbitrary: s)
  case Nil
  then show ?case by simp
next
  case (Cons a acts)
  from closed_write_step [OF Cons.prems, of a]
  have "closed (pipe (exec acts (step a s))) \<and> i < length (threads (exec acts (step a s))) \<and>
         op (threads (exec acts (step a s)) ! i) = OpWrite inp \<and>
         (status (threads (exec acts (step a s)) ! i) = Ready \<or>
          status (threads (exec acts (step a s)) ! i) = Done (RetWrite 0 (Some ErrClosedPipe)))"
    by (intro Cons.IH) simp_all
  then show ?case by simp
qed

lemma exec_append: "exec (xs @ ys) s = exec ys (exec xs s)"
  by (induction xs arbitrary: s) simp_all

lemma closed_write_returns:
  assumes "closed (pipe s)" "i < length (threads s)"
    and "op (threads s ! i) = OpWrite inp"
    and "status (threads s ! i) = Ready \<or>
         status (threads s ! i) = Done (RetWrite 0 (Some ErrClosedPipe))"
  shows "status (threads (exec (acts @ [Run i]) s) ! i) = Done (RetWrite 0 (Some ErrClosedPipe))"
proof -
  let ?s = "exec acts s"
  from closed_write_exec [OF assms, of acts]
  have inv: "closed (pipe ?s)" "i < length (threads ?s)" "op (threads ?s ! i) = OpWrite inp"
    "status (threads ?s ! i) = Ready \<or> status (threads ?s ! i) = Done (RetWrite 0 (Some ErrClosedPipe))"
    by simp_all
  show ?thesis
  proof (cases "status (threads ?s ! i) = Ready")
    case True
    from run_Write_closed [OF inv(1-3) True] show ?thesis by (simp add: exec_append)
  next
    case False
    then have "run i ?s = ?s" by (rule run_not_ready)
    with False inv(4) show ?thesis by (simp add: exec_append)
  qed
qed

lemma Close_wakes_Write:
  assumes "i < length (threads s)" "j < length (threads s)"
    and "threads s ! i = \<lparr>op = OpWrite inp, status = Waiting\<rparr>"
    and "threads s ! j = \<lparr>op = OpClose, status = Ready\<rparr>"
  shows "closed (pipe (run j s))"
    and "threads (run j s) ! j = \<lparr>op = OpClose, status = Done (RetClose None)\<rparr>"
    and "threads (run j s) ! i = \<lparr>op = OpWrite inp, status = Ready\<rparr>"
    and "length (threads (run j s)) = length (threads s)"
proof -
  have ne: "i \<noteq> j" using assms(3,4) by auto
  note r = run_Close [OF assms(2,4)]
  show "closed (pipe (run j s))" by (simp add: r)
  show "threads (run j s) ! j = \<lparr>op = OpClose, status = Done (RetClose None)\<rparr>"
    using assms(2) by (simp add: r commit_nth_self)
  show "threads (run j s) ! i = \<lparr>op = OpWrite inp, status = Ready\<rparr>"
    using assms(1,3) ne by (simp add: r commit_nth_other nth_wake_all)
  show "length (threads (run j s)) = length (threads s)" by (simp add: r)
qed

lemma closed_exec: "closed (pipe s) \<Longrightarrow> closed (pipe (exec acts s))"
  by (induction acts arbitrary: s) (simp_all add: closed_step)

lemma Len_0_contents: "Len p = 0 \<Longrightarrow> contents p = []"
  by (simp add: Len_def)

lemma tick_simps [simp]:
  "pipe (tick t s) = pipe s"
  "clock (tick t s) = max (clock s) t"
  "length (threads (tick t s)) = length (threads s)"
  by (simp_all add: tick_def Let_def)

lemma tick_ready:
  "i < length (threads s) \<Longrightarrow> threads s ! i = \<lparr>op = c, status = Ready\<rparr> \<Longrightarrow>
   threads (tick t s) ! i = \<lparr>op = c, status = Ready\<rparr>"
  by (simp add: tick_def Let_def nth_wake_all)

lemma tick_due_wakes:
  "i < length (threads s) \<Longrightarrow> threads s ! i = \<lparr>op = c, status = Waiting\<rparr> \<Longrightarrow>
   f \<in> set (pending s) \<Longrightarrow> f \<le> max (clock s) t \<Longrightarrow>
   threads (tick t s) ! i = \<lparr>op = c, status = Ready\<rparr>"
  by (auto simp add: tick_def Let_def nth_wake_all filter_empty_conv)

text \<open>The reader parks: the first cycle of a Read on an open, empty pipe before its deadline.\<close>

lemma Read_parks:
  assumes "i < length (threads s)" "threads s ! i = \<lparr>op = OpRead tg, status = Ready\<rparr>"
    and "\<not> closed (pipe s)" "Len (pipe s) = 0"
    and "rDeadline (pipe s) \<noteq> 0" "clock s < rDeadline (pipe s)"
  shows "run i s =
     commit i s (alloc (pipe s)) \<lparr>op = OpRead tg, status = Waiting\<rparr> False
       [Until (rDeadline (pipe s)) (clock s)]"
  using assms by (simp add: run_Read Read_cycle_wait status_of_def)

lemma Read_times_out:
  assumes "i < length (threads s)" "threads s ! i = \<lparr>op = OpRead tg, status = Ready\<rparr>"
    and "\<not> (closed (pipe s) \<and> Len (pipe s) = 0)"
    and "rDeadline (pipe s) \<noteq> 0" "rDeadline (pipe s) \<le> clock s"
  shows "threads (run i s) ! i =
     \<lparr>op = OpRead tg, status = Done (RetRead 0 (Some ErrTimeout) tg)\<rparr>"
  using assms by (simp add: run_Read Read_cycle_timeout status_of_def commit_nth_self)

lemma Read_gets_data:
  assumes "i < length (threads s)" "threads s ! i = \<lparr>op = OpRead tg, status = Ready\<rparr>"
    and "0 < Len (pipe s)"
    and "rDeadline (pipe s) = 0 \<or> clock s < rDeadline (pipe s)"
  shows "threads (run i s) ! i =
     \<lparr>op = OpRead tg,
      status = Done (RetRead (min (length tg) (Len (pipe s))) None
                 (copy_bytes tg (contents (pipe s))))\<rparr>"
  using assms by (simp add: run_Read Read_cycle_data status_of_def commit_nth_self)

lemma Write_delivers:
  assumes "j < length (threads s)" "threads s ! j = \<lparr>op = OpWrite inp, status = Ready\<rparr>"
    and "\<not> closed (pipe s)" "Len (pipe s) \<le> BUF_SIZE_LIMIT"
  shows "run j s =
     commit j s ((alloc (pipe s))\<lparr>buf := Some (contents (pipe s) @ inp)\<rparr>)
       \<lparr>op = OpWrite inp, status = Done (RetWrite (length inp) None)\<rparr> True []"
  using assms by (simp add: run_Write Write_cycle_room status_of_def)

lemma deadline_first:
  assumes "i < length (threads s)" "threads s ! i = \<lparr>op = OpRead tg, status = Ready\<rparr>"
    and "\<not> closed (pipe s)" "Len (pipe s) = 0"
    and "rDeadline (pipe s) \<noteq> 0" "clock s < rDeadline (pipe s)"
    and "rDeadline (pipe s) \<le> t"
  shows "threads (exec [Run i, Tick t, Run i] s) ! i =
     \<lparr>op = OpRead tg, status = Done (RetRead 0 (Some ErrTimeout) tg)\<rparr>"
proof -
  let ?s1 = "run i s"
  let ?s2 = "tick t ?s1"
  note p = Read_parks [OF assms(1-6)]
  have t1: "threads ?s1 ! i = \<lparr>op = OpRead tg, status = Waiting\<rparr>"
    using assms(1) by (simp add: p commit_nth_self)
  have due: "clock s + Until (rDeadline (pipe s)) (clock s) \<le> max (clock ?s1) t"
    using Until_le [OF assms(6)] assms(7) by (simp add: p)
  have t2: "threads ?s2 ! i = \<lparr>op = OpRead tg, status = Ready\<rparr>"
    using assms(1) t1 due
    by (intro tick_due_wakes [where f = "clock s + Until (rDeadline (pipe s)) (clock s)"])
      (simp_all add: p)
  have "threads (run i ?s2) ! i =
     \<lparr>op = OpRead tg, status = Done (RetRead 0 (Some ErrTimeout) tg)\<rparr>"
    using assms(1,3,5,6,7) t2
    by (intro Read_times_out) (simp_all add: p)
  then show ?thesis by simp
qed

lemma data_first:
  assumes "i < length (threads s)" "threads s ! i = \<lparr>op = OpRead tg, status = Ready\<rparr>"
    and "\<not> closed (pipe s)" "Len (pipe s) = 0"
    and "rDeadline (pipe s) \<noteq> 0" "clock s < rDeadline (pipe s)"
    and "j < length (threads s)" "threads s ! j = \<lparr>op = OpWrite inp, status = Ready\<rparr>"
    and "inp \<noteq> []" "t < rDeadline (pipe s)"
  shows "threads (exec [Run i, Run j, Tick t, Run i] s) ! i =
     \<lparr>op = OpRead tg,
      status = Done (RetRead (min (length tg) (length inp)) None (copy_bytes tg inp))\<rparr>"
proof -
  let ?s1 = "run i s"
  let ?s2 = "run j ?s1"
  let ?s3 = "tick t ?s2"
  have ne: "i \<noteq> j" using assms(2,8) by auto
  note p = Read_parks [OF assms(1-6)]
  have t1: "threads ?s1 ! i = \<lparr>op = OpRead tg, status = Waiting\<rparr>"
    using assms(1) by (simp add: p commit_nth_self)
  have w1: "threads ?s1 ! j = \<lparr>op = OpWrite inp, status = Ready\<rparr>"
    using assms(8) ne by (simp add: p commit_nth_other)
  have q: "?s2 = commit j ?s1 ((alloc (pipe ?s1))\<lparr>buf := Some (contents (pipe ?s1) @ inp)\<rparr>)
       \<lparr>op = OpWrite inp, status = Done (RetWrite (length inp) None)\<rparr> True []"
    using assms(3,4,7) w1 by (intro Write_delivers) (simp_all add: p)
  have c2: "contents (pipe ?s2) = inp" "rDeadline (pipe ?s2) = rDeadline (pipe s)"
    "clock ?s2 = clock s" "length (threads ?s2) = length (threads s)"
    using Len_0_contents [OF assms(4)] by (simp_all add: q) (simp_all add: p)
  have l1: "length (threads ?s1) = length (threads s)" by (simp add: p)
  have t2: "threads ?s2 ! i = \<lparr>op = OpRead tg, status = Ready\<rparr>"
    using assms(1) ne t1 l1 by (simp add: q commit_nth_other nth_wake_all)
  have t3: "threads ?s3 ! i = \<lparr>op = OpRead tg, status = Ready\<rparr>"
    using assms(1) t2 c2(4) by (intro tick_ready) simp_all
  have "threads (run i ?s3) ! i =
     \<lparr>op = OpRead tg,
      status = Done (RetRead (min (length tg) (Len (pipe ?s3))) None
                 (copy_bytes tg (contents (pipe ?s3))))\<rparr>"
    using assms(1,6,9,10) t3 c2
    by (intro Read_gets_data) (simp_all add: Len_def)
  then show ?thesis using c2(1) by (simp add: Len_def)
qed

lemma Read_cycle_frees:
  "Len (pipe_after (Read_cycle now p tg)) < Len p \<or>
   (closed (pipe_after (Read_cycle now p tg)) \<and> \<not> closed p) \<Longrightarrow>
   broadcast (Read_cycle now p tg)"
  by (simp add: Read_cycle_def Let_def split: if_splits prod.splits)

lemma Write_cycle_frees:
  "Len (pipe_after (Write_cycle p inp)) < Len p \<or>
   (closed (pipe_after (Write_cycle p inp)) \<and> \<not> closed p) \<Longrightarrow>
   broadcast (Write_cycle p inp)"
  by (simp add: Write_cycle_def Let_def split: if_splits)

lemma Len_rDeadline_update [simp]: "Len (p\<lparr>rDeadline := t\<rparr>) = Len p"
  by (simp add: Len_def contents_def)

lemma WriteTo_cycle_frees:
  "Len (pipe_after (fst (WriteTo_cycle now now' p w n))) < Len p \<or>
   (closed (pipe_after (fst (WriteTo_cycle now now' p w n))) \<and> \<not> closed p) \<Longrightarrow>
   broadcast (fst (WriteTo_cycle now now' p w n))"
  by (simp add: WriteTo_cycle_def Let_def split: if_splits option.splits prod.splits)

text \<open>A cycle that shortens the buffer or closes the pipe calls \<open>Broadcast\<close>.\<close>

lemma run_frees:
  "run j s = s \<or>
   (\<exists>p t bc ds. run j s = commit j s p t bc ds \<and>
      (Len p < Len (pipe s) \<or> (closed p \<and> \<not> closed (pipe s)) \<longrightarrow> bc))"
proof (cases "j < length (threads s) \<and> status (threads s ! j) = Ready")
  case False
  then have "run j s = s" unfolding run_def by (simp only: if_False)
  then show ?thesis by simp
next
  case True
  show ?thesis
  proof (cases "op (threads s ! j)")
    case (OpRead tg)
    with True Read_cycle_frees [of "clock s" "pipe s" tg] show ?thesis
      by (simp add: run_def Let_def) blast
  next
    case (OpWriteTo w n)
    obtain c n' where c: "WriteTo_cycle (clock s) (clock s) (pipe s) w n = (c, n')"
      by (cases "WriteTo_cycle (clock s) (clock s) (pipe s) w n")
    with OpWriteTo True WriteTo_cycle_frees [of "clock s" "clock s" "pipe s" w n] show ?thesis
      by (simp add: run_def Let_def) blast
  next
    case (OpWrite inp)
    with True Write_cycle_frees [of "pipe s" inp] show ?thesis
      by (simp add: run_def Let_def) blast
  next
    case OpClose
    with True show ?thesis by (simp add: run_def Let_def Close_def) blast
  next
    case (OpSetReadDeadline t)
    with True show ?thesis by (simp add: run_def Let_def SetReadDeadline_def) blast
  next
    case (OpSetWriteToTimeout d)
    with True show ?thesis by (simp add: run_def Let_def SetWriteToTimeout_def) blast
  qed
qed

text \<open>
  Whatever shortens the buffer or closes the pipe wakes every parked call: the step cannot be
  one of the parked thread itself, of the clock or of a new call, and the cycle of another
  thread that does it broadcasts.
\<close>

lemma freed_wakes:
  assumes "i < length (threads s)" and "threads s ! i = \<lparr>op = c, status = Waiting\<rparr>"
    and "Len (pipe (step a s)) < Len (pipe s) \<or> (closed (pipe (step a s)) \<and> \<not> closed (pipe s))"
  shows "threads (step a s) ! i = \<lparr>op = c, status = Ready\<rparr>"
proof (cases a)
  case (Run j)
  have "run j s \<noteq> s" using assms(3) Run by auto
  with run_frees [of j s] obtain p t bc ds
    where r: "run j s = commit j s p t bc ds"
      and b: "Len p < Len (pipe s) \<or> (closed p \<and> \<not> closed (pipe s)) \<longrightarrow> bc"
    by blast
  from assms(3) Run r b have bc by simp
  have "j \<noteq> i"
  proof
    assume "j = i"
    with assms(2) have "run j s = s" by (simp add: run_def)
    with \<open>run j s \<noteq> s\<close> show False by simp
  qed
  with r \<open>bc\<close> assms(1,2) Run show ?thesis
    by (simp add: commit_nth_other nth_wake_all)
next
  case (Tick t)
  with assms(3) show ?thesis by (simp add: tick_def Let_def)
next
  case (Spawn c)
  with assms(3) show ?thesis by (simp add: spawn_def)
qed

text \<open>A parked call does not return while it is parked: a step leaves it parked or wakes it.\<close>

lemma parked_step:
  assumes "i < length (threads s)" and "threads s ! i = \<lparr>op = c, status = Waiting\<rparr>"
  shows "threads (step a s) ! i = \<lparr>op = c, status = Waiting\<rparr> \<or>
         threads (step a s) ! i = \<lparr>op = c, status = Ready\<rparr>"
proof (cases "a = Run i")
  case True
  with assms(2) show ?thesis by (simp add: run_def)
next
  case False
  from step_other [OF assms(1) False] assms(2)
  have "op (threads (step a s) ! i) = c"
    and "status (threads (step a s) ! i) = Waiting \<or> status (threads (step a s) ! i) = Ready"
    by (auto split: if_splits)
  then show ?thesis using thread_eqI by blast
qed

lemma write_inv_step:
  assumes "write_inv i inp s"
  shows "write_inv i inp (step a s)"
proof -
  from assms have l0: "i < length (threads s)" and o: "op (threads s ! i) = OpWrite inp"
    by (simp_all add: write_inv_def)
  have l: "i < length (threads (step a s))"
    using l0 length_threads_step [of s a] by linarith
  show ?thesis
  proof (cases "a = Run i")
    case True
    show ?thesis
    proof (cases "status (threads s ! i) = Ready")
      case True
      with o have t: "threads s ! i = \<lparr>op = OpWrite inp, status = Ready\<rparr>" by (simp add: thread_eqI)
      have "threads (run i s) ! i =
          \<lparr>op = OpWrite inp,
           status = status_of (\<lambda>(n, e). RetWrite n e) (outcome (Write_cycle (pipe s) inp))\<rparr>"
        and "pipe (run i s) = pipe_after (Write_cycle (pipe s) inp)"
        using l0 t by (simp_all add: run_Write commit_nth_self)
      with \<open>a = Run i\<close> l show ?thesis
        by (simp add: write_inv_def Write_cycle_def Let_def status_of_def)
    next
      case False
      then have "run i s = s" by (rule run_not_ready)
      with \<open>a = Run i\<close> assms show ?thesis by simp
    qed
  next
    case False
    from step_other [OF l0 False] o assms l closed_step [of s a] show ?thesis
      by (auto simp add: write_inv_def split: if_splits)
  qed
qed

lemma write_inv_exec: "write_inv i inp s \<Longrightarrow> write_inv i inp (exec acts s)"
  by (induction acts arbitrary: s) (simp_all add: write_inv_step)

lemma ready_stays:
  assumes "i < length (threads s)" and "threads s ! i = \<lparr>op = c, status = Ready\<rparr>"
    and "Run i \<notin> set acts"
  shows "i < length (threads (exec acts s)) \<and> threads (exec acts s) ! i = \<lparr>op = c, status = Ready\<rparr>"
  using assms
proof (induction acts arbitrary: s)
  case Nil
  then show ?case by simp
next
  case (Cons a acts)
  from Cons.prems(3) have ne: "a \<noteq> Run i" and rest: "Run i \<notin> set acts" by auto
  have l: "i < length (threads (step a s))"
    using Cons.prems(1) length_threads_step [of s a] by linarith
  from step_other [OF Cons.prems(1) ne] Cons.prems(2)
  have "op (threads (step a s) ! i) = c" and "status (threads (step a s) ! i) = Ready"
    by simp_all
  then have "threads (step a s) ! i = \<lparr>op = c, status = Ready\<rparr>" by (rule thread_eqI)
  from Cons.IH [OF l this rest] show ?case by simp
qed

lemma run_Write_result:
  assumes "i < length (threads s)" and "threads s ! i = \<lparr>op = OpWrite inp, status = Ready\<rparr>"
  shows "threads (run i s) ! i =
        \<lparr>op = OpWrite inp,
         status = (case outcome (Write_cycle (pipe s) inp) of
                     Returns (k, er) \<Rightarrow> Done (RetWrite k er)
                   | Waits \<Rightarrow> Waiting
                   | Panics \<Rightarrow> Done RetPanic)\<rparr> \<and>
      pipe (run i s) = pipe_after (Write_cycle (pipe s) inp)"
  using assms
  by (simp add: run_Write commit_nth_self status_of_def split: outcome.splits prod.splits)

text \<open>What a parked \<open>Write\<close> does after a step that freed space or closed the pipe.\<close>

lemma woken_Write:
  assumes "i < length (threads s)" and "threads s ! i = \<lparr>op = OpWrite inp, status = Waiting\<rparr>"
    and "Len (pipe (step a s)) < Len (pipe s) \<or> (closed (pipe (step a s)) \<and> \<not> closed (pipe s))"
  shows "threads (step a s) ! i = \<lparr>op = OpWrite inp, status = Ready\<rparr>"
    and "closed (pipe (step a s)) \<Longrightarrow>
         threads (exec [a, Run i] s) ! i =
           \<lparr>op = OpWrite inp, status = Done (RetWrite 0 (Some ErrClosedPipe))\<rparr>"
    and "\<not> closed (pipe (step a s)) \<Longrightarrow> Len (pipe (step a s)) \<le> BUF_SIZE_LIMIT \<Longrightarrow>
         threads (exec [a, Run i] s) ! i =
           \<lparr>op = OpWrite inp, status = Done (RetWrite (length inp) None)\<rparr> \<and>
         contents (pipe (exec [a, Run i] s)) = contents (pipe (step a s)) @ inp"
    and "\<not> closed (pipe (step a s)) \<Longrightarrow> BUF_SIZE_LIMIT < Len (pipe (step a s)) \<Longrightarrow>
         threads (exec [a, Run i] s) ! i = \<lparr>op = OpWrite inp, status = Waiting\<rparr> \<and>
         contents (pipe (exec [a, Run i] s)) = contents (pipe (step a s))"
proof -
  show r: "threads (step a s) ! i = \<lparr>op = OpWrite inp, status = Ready\<rparr>"
    using assms by (rule freed_wakes)
  have l: "i < length (threads (step a s))"
    using assms(1) length_threads_step [of s a] by linarith
  note w = run_Write_result [OF l r]
  show "closed (pipe (step a s)) \<Longrightarrow>
         threads (exec [a, Run i] s) ! i =
           \<lparr>op = OpWrite inp, status = Done (RetWrite 0 (Some ErrClosedPipe))\<rparr>"
    using w by (simp add: Write_cycle_closed)
  show "\<not> closed (pipe (step a s)) \<Longrightarrow> Len (pipe (step a s)) \<le> BUF_SIZE_LIMIT \<Longrightarrow>
         threads (exec [a, Run i] s) ! i =
           \<lparr>op = OpWrite inp, status = Done (RetWrite (length inp) None)\<rparr> \<and>
         contents (pipe (exec [a, Run i] s)) = contents (pipe (step a s)) @ inp"
    using w by (simp add: Write_cycle_room)
  show "\<not> closed (pipe (step a s)) \<Longrightarrow> BUF_SIZE_LIMIT < Len (pipe (step a s)) \<Longrightarrow>
         threads (exec [a, Run i] s) ! i = \<lparr>op = OpWrite inp, status = Waiting\<rparr> \<and>
         contents (pipe (exec [a, Run i] s)) = contents (pipe (step a s))"
    using w by (simp add: Write_cycle_full)
qed

lemma write_inv_start:
  "i < length (threads s) \<Longrightarrow> op (threads s ! i) = OpWrite inp \<Longrightarrow>
   status (threads s ! i) = Ready \<or> status (threads s ! i) = Waiting \<Longrightarrow> write_inv i inp s"
  by (auto simp add: write_inv_def)

lemma parked_writer_read:
  "pipe (run 1 parked_writer) =
     (alloc over_pipe)\<lparr>buf := Some (replicate BUF_SIZE_LIMIT 0)\<rparr>"
proof -
  have l: "1 < length (threads parked_writer)"
    and t: "threads parked_writer ! 1 = \<lparr>op = OpRead [0], status = Ready\<rparr>"
    and p: "pipe parked_writer = over_pipe" and c: "clock parked_writer = 1"
    by (simp_all add: parked_writer_def)
  have d: "0 < Len over_pipe" "rDeadline over_pipe = 0"
    "contents over_pipe = replicate (Suc BUF_SIZE_LIMIT) 0" "Len over_pipe = Suc BUF_SIZE_LIMIT"
    by (simp_all add: over_pipe_def Len_def contents_def)
  have "Read_cycle 1 over_pipe [0] =
     \<lparr>pipe_after = (alloc over_pipe)\<lparr>buf := Some (drop (min (length [0::byte]) (Len over_pipe)) (contents over_pipe))\<rparr>,
      outcome = Returns (min (length [0::byte]) (Len over_pipe), None, copy_bytes [0] (contents over_pipe)),
      broadcast = True,
      timers = (if rDeadline over_pipe = 0 then [] else [Until (rDeadline over_pipe) 1])\<rparr>"
    using d(1,2) by (intro Read_cycle_data) simp_all
  then have "pipe_after (Read_cycle 1 over_pipe [0]) =
      (alloc over_pipe)\<lparr>buf := Some (replicate BUF_SIZE_LIMIT 0)\<rparr>"
    by (simp add: d(3,4))
  then show ?thesis
    using run_Read [OF l t] by (simp add: p c)
qed

section \<open>The claims about the buffered pipe\<close>

text \<open>
  Claim C2 (Close). \<open>Close\<close> sets the closed flag, broadcasts, returns nil, and a second
  \<open>Close\<close> does the same again. On a closed pipe, a cycle of \<open>Read\<close> that finds the
  buffer empty returns \<open>io.EOF\<close>, and a cycle of \<open>Write\<close> returns
  \<open>io.ErrClosedPipe\<close> and leaves the buffer alone; the flag stays set under every
  interleaving. A \<open>Write\<close> that is parked in \<open>Wait\<close> when another thread runs
  \<open>Close\<close> becomes ready by that broadcast, and whatever actions \<open>acts\<close> come before it
  next gets the lock, it then returns \<open>(0, io.ErrClosedPipe)\<close>.
\<close>

theorem Close_semantics:
  "closed (pipe_after (Close p)) \<and> outcome (Close p) = Returns None \<and> broadcast (Close p) \<and>
   Close (pipe_after (Close p)) = Close p \<and>
   (closed p \<and> Len p = 0 \<longrightarrow>
      outcome (Read_cycle now p target) = Returns (0, Some EOF, target)) \<and>
   (closed p \<longrightarrow>
      outcome (Write_cycle p input) = Returns (0, Some ErrClosedPipe) \<and>
      contents (pipe_after (Write_cycle p input)) = contents p) \<and>
   (closed (pipe s) \<longrightarrow> closed (pipe (exec acts s))) \<and>
   (i < length (threads s) \<and> j < length (threads s) \<and>
    threads s ! i = \<lparr>op = OpWrite inp, status = Waiting\<rparr> \<and>
    threads s ! j = \<lparr>op = OpClose, status = Ready\<rparr> \<longrightarrow>
      closed (pipe (run j s)) \<and>
      threads (run j s) ! j = \<lparr>op = OpClose, status = Done (RetClose None)\<rparr> \<and>
      threads (run j s) ! i = \<lparr>op = OpWrite inp, status = Ready\<rparr> \<and>
      status (threads (exec (Run j # acts @ [Run i]) s) ! i) =
        Done (RetWrite 0 (Some ErrClosedPipe)))"
proof -
  have a: "closed (pipe_after (Close p)) \<and> outcome (Close p) = Returns None \<and>
      broadcast (Close p) \<and> Close (pipe_after (Close p)) = Close p"
    by (simp add: Close_def)
  have b: "closed p \<and> Len p = 0 \<longrightarrow>
      outcome (Read_cycle now p target) = Returns (0, Some EOF, target)"
    by (simp add: Read_cycle_eof)
  have c: "closed p \<longrightarrow>
      outcome (Write_cycle p input) = Returns (0, Some ErrClosedPipe) \<and>
      contents (pipe_after (Write_cycle p input)) = contents p"
    by (simp add: Write_cycle_closed)
  have d: "closed (pipe s) \<longrightarrow> closed (pipe (exec acts s))"
    by (simp add: closed_exec)
  have e: "closed (pipe (run j s)) \<and>
      threads (run j s) ! j = \<lparr>op = OpClose, status = Done (RetClose None)\<rparr> \<and>
      threads (run j s) ! i = \<lparr>op = OpWrite inp, status = Ready\<rparr> \<and>
      status (threads (exec (Run j # acts @ [Run i]) s) ! i) =
        Done (RetWrite 0 (Some ErrClosedPipe))"
    if h: "i < length (threads s)" "j < length (threads s)"
      "threads s ! i = \<lparr>op = OpWrite inp, status = Waiting\<rparr>"
      "threads s ! j = \<lparr>op = OpClose, status = Ready\<rparr>"
  proof -
    note w = Close_wakes_Write [OF h]
    have "status (threads (exec (acts @ [Run i]) (run j s)) ! i) =
        Done (RetWrite 0 (Some ErrClosedPipe))"
      using w h(1) by (intro closed_write_returns) simp_all
    with w show ?thesis by simp
  qed
  from a b c d e show ?thesis by blast
qed

theorem Close_semantics_witness:
  "outcome (Read_cycle 9 (pipe_after (Close NewBufferedPipe)) [0, 0]) = Returns (0, Some EOF, [0, 0]) \<and>
   outcome (Write_cycle (pipe_after (Close NewBufferedPipe)) [7]) = Returns (0, Some ErrClosedPipe) \<and>
   closed (pipe (exec [Tick 3] (run 1 blocked_writer))) \<and>
   threads (run 1 blocked_writer) ! 0 = \<lparr>op = OpWrite [1, 2], status = Ready\<rparr> \<and>
   status (threads (exec [Run 1, Tick 3, Run 0] blocked_writer) ! 0) =
     Done (RetWrite 0 (Some ErrClosedPipe))"
proof -
  have p: "closed (pipe_after (Close NewBufferedPipe))"
    "Len (pipe_after (Close NewBufferedPipe)) = 0"
    by (simp_all add: Close_def NewBufferedPipe_def Len_def contents_def)
  have s: "0 < length (threads blocked_writer)" "1 < length (threads blocked_writer)"
    "threads blocked_writer ! 0 = \<lparr>op = OpWrite [1, 2], status = Waiting\<rparr>"
    "threads blocked_writer ! 1 = \<lparr>op = OpClose, status = Ready\<rparr>"
    by (simp_all add: blocked_writer_def)
  from Close_semantics [of "pipe_after (Close NewBufferedPipe)" 9 "[0, 0]" "[7]"
      "run 1 blocked_writer" "[Tick 3]" 0 1 "[1, 2]"] p
  have 1: "outcome (Read_cycle 9 (pipe_after (Close NewBufferedPipe)) [0, 0]) = Returns (0, Some EOF, [0, 0])"
    and 2: "outcome (Write_cycle (pipe_after (Close NewBufferedPipe)) [7]) = Returns (0, Some ErrClosedPipe)"
    by blast+
  from Close_semantics [of NewBufferedPipe 9 "[0, 0]" "[7]" blocked_writer "[Tick 3]" 0 1 "[1, 2]"] s
  have 3: "closed (pipe (run 1 blocked_writer))"
    and 4: "threads (run 1 blocked_writer) ! 0 = \<lparr>op = OpWrite [1, 2], status = Ready\<rparr>"
    and 5: "status (threads (exec (Run 1 # [Tick 3] @ [Run 0]) blocked_writer) ! 0) =
     Done (RetWrite 0 (Some ErrClosedPipe))"
    by blast+
  from Close_semantics [of NewBufferedPipe 9 "[0, 0]" "[7]" "run 1 blocked_writer" "[Tick 3]" 0 1 "[1, 2]"] 3
  have 6: "closed (pipe (exec [Tick 3] (run 1 blocked_writer)))" by blast
  from 1 2 4 5 6 show ?thesis by simp
qed

text \<open>
  Claim C3 (Write). The ceiling is 500 MiB. A cycle of \<open>Write\<close> on a closed pipe returns
  \<open>(0, io.ErrClosedPipe)\<close> at once, with no broadcast. On an open pipe whose buffer
  length is at most the ceiling it appends the whole input, broadcasts and returns the
  input's length with a nil error. On an open pipe above the ceiling it parks in
  \<open>Wait\<close> and changes nothing. The only error a cycle can return is the closed-pipe
  error, on a closed pipe. In the scheduler:

  \<^item> a ready \<open>Write\<close> that runs takes exactly the outcome of the cycle on the pipe as
    it is then and keeps its call, and until it runs nothing the others do changes it;

  \<^item> a parked \<open>Write\<close> cannot run, and a step of anything else leaves it parked or
    wakes it: it does not return while it is parked;

  \<^item> every step that shortens the buffer or closes the pipe wakes the parked \<open>Write\<close>,
    which then checks again: on a pipe now closed it returns the closed-pipe error, on an
    open pipe now within the ceiling it appends its whole input and returns its length, and
    on an open pipe still above the ceiling it parks again;

  \<^item> over every interleaving, a \<open>Write\<close> that has not returned either still has not,
    or has returned its input's length with a nil error, or has returned the closed-pipe
    error on a pipe that is closed: the ceiling alone never makes it fail.
\<close>

theorem Write_contract:
  "BUF_SIZE_LIMIT = 500 * 2 ^ 20 \<and>
   (closed p \<longrightarrow>
      Write_cycle p input =
        \<lparr>pipe_after = alloc p, outcome = Returns (0, Some ErrClosedPipe),
         broadcast = False, timers = []\<rparr>) \<and>
   (\<not> closed p \<and> Len p \<le> BUF_SIZE_LIMIT \<longrightarrow>
      Write_cycle p input =
        \<lparr>pipe_after = (alloc p)\<lparr>buf := Some (contents p @ input)\<rparr>,
         outcome = Returns (length input, None), broadcast = True, timers = []\<rparr>) \<and>
   (\<not> closed p \<and> BUF_SIZE_LIMIT < Len p \<longrightarrow>
      Write_cycle p input =
        \<lparr>pipe_after = alloc p, outcome = Waits, broadcast = False, timers = []\<rparr>) \<and>
   (outcome (Write_cycle p input) = Returns (n, Some e) \<longrightarrow> closed p \<and> e = ErrClosedPipe) \<and>
   (i < length (threads s) \<and> threads s ! i = \<lparr>op = OpWrite input, status = Ready\<rparr> \<longrightarrow>
      threads (run i s) ! i =
        \<lparr>op = OpWrite input,
         status = (case outcome (Write_cycle (pipe s) input) of
                     Returns (k, er) \<Rightarrow> Done (RetWrite k er)
                   | Waits \<Rightarrow> Waiting
                   | Panics \<Rightarrow> Done RetPanic)\<rparr> \<and>
      pipe (run i s) = pipe_after (Write_cycle (pipe s) input)) \<and>
   (i < length (threads s) \<and> threads s ! i = \<lparr>op = OpWrite input, status = Ready\<rparr> \<and>
    Run i \<notin> set acts \<longrightarrow>
      threads (exec acts s) ! i = \<lparr>op = OpWrite input, status = Ready\<rparr>) \<and>
   (i < length (threads s) \<and> threads s ! i = \<lparr>op = OpWrite input, status = Waiting\<rparr> \<longrightarrow>
      run i s = s \<and>
      (threads (step a s) ! i = \<lparr>op = OpWrite input, status = Waiting\<rparr> \<or>
       threads (step a s) ! i = \<lparr>op = OpWrite input, status = Ready\<rparr>)) \<and>
   (i < length (threads s) \<and> threads s ! i = \<lparr>op = OpWrite input, status = Waiting\<rparr> \<and>
    (Len (pipe (step a s)) < Len (pipe s) \<or> (closed (pipe (step a s)) \<and> \<not> closed (pipe s))) \<longrightarrow>
      threads (step a s) ! i = \<lparr>op = OpWrite input, status = Ready\<rparr> \<and>
      (closed (pipe (step a s)) \<longrightarrow>
         threads (exec [a, Run i] s) ! i =
           \<lparr>op = OpWrite input, status = Done (RetWrite 0 (Some ErrClosedPipe))\<rparr>) \<and>
      (\<not> closed (pipe (step a s)) \<and> Len (pipe (step a s)) \<le> BUF_SIZE_LIMIT \<longrightarrow>
         threads (exec [a, Run i] s) ! i =
           \<lparr>op = OpWrite input, status = Done (RetWrite (length input) None)\<rparr> \<and>
         contents (pipe (exec [a, Run i] s)) = contents (pipe (step a s)) @ input) \<and>
      (\<not> closed (pipe (step a s)) \<and> BUF_SIZE_LIMIT < Len (pipe (step a s)) \<longrightarrow>
         threads (exec [a, Run i] s) ! i = \<lparr>op = OpWrite input, status = Waiting\<rparr> \<and>
         contents (pipe (exec [a, Run i] s)) = contents (pipe (step a s)))) \<and>
   (i < length (threads s) \<and> op (threads s ! i) = OpWrite input \<and>
    (status (threads s ! i) = Ready \<or> status (threads s ! i) = Waiting) \<longrightarrow>
      op (threads (exec acts s) ! i) = OpWrite input \<and>
      (status (threads (exec acts s) ! i) = Ready \<or>
       status (threads (exec acts s) ! i) = Waiting \<or>
       status (threads (exec acts s) ! i) = Done (RetWrite (length input) None) \<or>
       (status (threads (exec acts s) ! i) = Done (RetWrite 0 (Some ErrClosedPipe)) \<and>
        closed (pipe (exec acts s)))))"
proof -
  have a: "BUF_SIZE_LIMIT = 500 * 2 ^ 20"
    by (simp add: BUF_SIZE_LIMIT_def)
  have b: "outcome (Write_cycle p input) = Returns (n, Some e) \<longrightarrow> closed p \<and> e = ErrClosedPipe"
    using Write_cycle_error [of p input n e] by blast
  have d: "i < length (threads s) \<and> threads s ! i = \<lparr>op = OpWrite input, status = Ready\<rparr> \<longrightarrow>
      threads (run i s) ! i =
        \<lparr>op = OpWrite input,
         status = (case outcome (Write_cycle (pipe s) input) of
                     Returns (k, er) \<Rightarrow> Done (RetWrite k er)
                   | Waits \<Rightarrow> Waiting
                   | Panics \<Rightarrow> Done RetPanic)\<rparr> \<and>
      pipe (run i s) = pipe_after (Write_cycle (pipe s) input)"
    using run_Write_result [of i s input] by blast
  have f: "i < length (threads s) \<and> threads s ! i = \<lparr>op = OpWrite input, status = Ready\<rparr> \<and>
    Run i \<notin> set acts \<longrightarrow>
      threads (exec acts s) ! i = \<lparr>op = OpWrite input, status = Ready\<rparr>"
    using ready_stays [of i s "OpWrite input" acts] by blast
  have g: "i < length (threads s) \<and> threads s ! i = \<lparr>op = OpWrite input, status = Waiting\<rparr> \<longrightarrow>
      run i s = s \<and>
      (threads (step a s) ! i = \<lparr>op = OpWrite input, status = Waiting\<rparr> \<or>
       threads (step a s) ! i = \<lparr>op = OpWrite input, status = Ready\<rparr>)"
    using parked_step [of i s "OpWrite input" a] run_not_ready [of s i] by auto
  have h: "i < length (threads s) \<and> threads s ! i = \<lparr>op = OpWrite input, status = Waiting\<rparr> \<and>
    (Len (pipe (step a s)) < Len (pipe s) \<or> (closed (pipe (step a s)) \<and> \<not> closed (pipe s))) \<longrightarrow>
      threads (step a s) ! i = \<lparr>op = OpWrite input, status = Ready\<rparr> \<and>
      (closed (pipe (step a s)) \<longrightarrow>
         threads (exec [a, Run i] s) ! i =
           \<lparr>op = OpWrite input, status = Done (RetWrite 0 (Some ErrClosedPipe))\<rparr>) \<and>
      (\<not> closed (pipe (step a s)) \<and> Len (pipe (step a s)) \<le> BUF_SIZE_LIMIT \<longrightarrow>
         threads (exec [a, Run i] s) ! i =
           \<lparr>op = OpWrite input, status = Done (RetWrite (length input) None)\<rparr> \<and>
         contents (pipe (exec [a, Run i] s)) = contents (pipe (step a s)) @ input) \<and>
      (\<not> closed (pipe (step a s)) \<and> BUF_SIZE_LIMIT < Len (pipe (step a s)) \<longrightarrow>
         threads (exec [a, Run i] s) ! i = \<lparr>op = OpWrite input, status = Waiting\<rparr> \<and>
         contents (pipe (exec [a, Run i] s)) = contents (pipe (step a s)))"
    using woken_Write [of i s input a] by blast
  have k: "i < length (threads s) \<and> op (threads s ! i) = OpWrite input \<and>
    (status (threads s ! i) = Ready \<or> status (threads s ! i) = Waiting) \<longrightarrow>
      op (threads (exec acts s) ! i) = OpWrite input \<and>
      (status (threads (exec acts s) ! i) = Ready \<or>
       status (threads (exec acts s) ! i) = Waiting \<or>
       status (threads (exec acts s) ! i) = Done (RetWrite (length input) None) \<or>
       (status (threads (exec acts s) ! i) = Done (RetWrite 0 (Some ErrClosedPipe)) \<and>
        closed (pipe (exec acts s))))"
  proof
    assume "i < length (threads s) \<and> op (threads s ! i) = OpWrite input \<and>
      (status (threads s ! i) = Ready \<or> status (threads s ! i) = Waiting)"
    then have "write_inv i input s" using write_inv_start [of i s input] by blast
    then have "write_inv i input (exec acts s)" by (rule write_inv_exec)
    then show "op (threads (exec acts s) ! i) = OpWrite input \<and>
      (status (threads (exec acts s) ! i) = Ready \<or>
       status (threads (exec acts s) ! i) = Waiting \<or>
       status (threads (exec acts s) ! i) = Done (RetWrite (length input) None) \<or>
       (status (threads (exec acts s) ! i) = Done (RetWrite 0 (Some ErrClosedPipe)) \<and>
        closed (pipe (exec acts s))))"
      by (simp add: write_inv_def)
  qed
  have c1: "closed p \<longrightarrow>
      Write_cycle p input =
        \<lparr>pipe_after = alloc p, outcome = Returns (0, Some ErrClosedPipe),
         broadcast = False, timers = []\<rparr>"
    using Write_cycle_closed [of p input] by blast
  have c2: "\<not> closed p \<and> Len p \<le> BUF_SIZE_LIMIT \<longrightarrow>
      Write_cycle p input =
        \<lparr>pipe_after = (alloc p)\<lparr>buf := Some (contents p @ input)\<rparr>,
         outcome = Returns (length input, None), broadcast = True, timers = []\<rparr>"
    using Write_cycle_room [of p input] by blast
  have c3: "\<not> closed p \<and> BUF_SIZE_LIMIT < Len p \<longrightarrow>
      Write_cycle p input =
        \<lparr>pipe_after = alloc p, outcome = Waits, broadcast = False, timers = []\<rparr>"
    using Write_cycle_full [of p input] by blast
  show ?thesis
    by (intro conjI) (rule a c1 c2 c3 b d f g h k)+
qed

theorem Write_contract_witness:
  "outcome (Write_cycle closed_pipe [1, 2]) = Returns (0, Some ErrClosedPipe) \<and>
   contents (pipe_after (Write_cycle NewBufferedPipe [1, 2])) = [1, 2] \<and>
   outcome (Write_cycle NewBufferedPipe [1, 2]) = Returns (2, None) \<and>
   outcome (Write_cycle over_pipe [1, 2]) = Waits \<and>
   threads (run 0 ready_writer) ! 0 = \<lparr>op = OpWrite [1, 2], status = Waiting\<rparr> \<and>
   threads (exec [Tick 7, Spawn OpClose] ready_writer) ! 0 = \<lparr>op = OpWrite [1, 2], status = Ready\<rparr> \<and>
   run 0 parked_writer = parked_writer \<and>
   threads (step (Run 1) parked_writer) ! 0 = \<lparr>op = OpWrite [1, 2], status = Ready\<rparr> \<and>
   threads (exec [Run 1, Run 0] parked_writer) ! 0 =
     \<lparr>op = OpWrite [1, 2], status = Done (RetWrite 2 None)\<rparr> \<and>
   Len (pipe (exec [Run 1, Run 0] parked_writer)) = BUF_SIZE_LIMIT + 2 \<and>
   threads (exec [Run 1, Run 0] blocked_writer) ! 0 =
     \<lparr>op = OpWrite [1, 2], status = Done (RetWrite 0 (Some ErrClosedPipe))\<rparr> \<and>
   status (threads (exec [Run 0, Tick 3, Run 0, Spawn OpClose] ready_writer) ! 0) \<noteq>
     Done (RetWrite 0 (Some ErrClosedPipe))"
proof -
  have 1: "outcome (Write_cycle closed_pipe [1, 2]) = Returns (0, Some ErrClosedPipe)"
    using Write_contract [where p = closed_pipe and input = "[1, 2]", THEN conjunct2] by (simp add: closed_pipe_def)
  have 2: "Write_cycle NewBufferedPipe [1, 2] =
      \<lparr>pipe_after = (alloc NewBufferedPipe)\<lparr>buf := Some (contents NewBufferedPipe @ [1, 2])\<rparr>,
         outcome = Returns (length [1, 2 :: byte], None), broadcast = True, timers = []\<rparr>"
    using Write_contract [where p = NewBufferedPipe and input = "[1, 2]", THEN conjunct2]
    by (simp add: NewBufferedPipe_def Len_def contents_def)
  have 3: "Write_cycle over_pipe [1, 2] =
      \<lparr>pipe_after = alloc over_pipe, outcome = Waits, broadcast = False, timers = []\<rparr>"
    using Write_contract [where p = over_pipe and input = "[1, 2]", THEN conjunct2]
    by (simp add: over_pipe_def Len_def contents_def)
  have h: "0 < length (threads ready_writer) \<and>
      threads ready_writer ! 0 = \<lparr>op = OpWrite [1, 2], status = Ready\<rparr>"
    by (simp add: ready_writer_def)
  from Write_contract [where input = "[1, 2]" and i = 0 and s = ready_writer] h
  have 4: "threads (run 0 ready_writer) ! 0 =
        \<lparr>op = OpWrite [1, 2],
         status = (case outcome (Write_cycle (pipe ready_writer) [1, 2]) of
                     Returns (k, er) \<Rightarrow> Done (RetWrite k er)
                   | Waits \<Rightarrow> Waiting
                   | Panics \<Rightarrow> Done RetPanic)\<rparr>"
    by blast
  have 5: "pipe ready_writer = over_pipe" by (simp add: ready_writer_def)
  have n: "Run 0 \<notin> set [Tick 7, Spawn OpClose]" by simp
  from Write_contract [where input = "[1, 2]" and i = 0 and s = ready_writer
      and acts = "[Tick 7, Spawn OpClose]"] h n
  have 6: "threads (exec [Tick 7, Spawn OpClose] ready_writer) ! 0 =
      \<lparr>op = OpWrite [1, 2], status = Ready\<rparr>"
    by blast
  have hp: "0 < length (threads parked_writer) \<and>
      threads parked_writer ! 0 = \<lparr>op = OpWrite [1, 2], status = Waiting\<rparr>"
    by (simp add: parked_writer_def)
  from Write_contract [where input = "[1, 2]" and i = 0 and s = parked_writer] hp
  have 7: "run 0 parked_writer = parked_writer" by blast
  have sp: "pipe (step (Run 1) parked_writer) =
      (alloc over_pipe)\<lparr>buf := Some (replicate BUF_SIZE_LIMIT 0)\<rparr>"
    unfolding step.simps by (rule parked_writer_read)
  have f: "Len (pipe (step (Run 1) parked_writer)) < Len (pipe parked_writer)"
    and o: "\<not> closed (pipe (step (Run 1) parked_writer))"
    and le: "Len (pipe (step (Run 1) parked_writer)) \<le> BUF_SIZE_LIMIT"
    and cn: "contents (pipe (step (Run 1) parked_writer)) = replicate BUF_SIZE_LIMIT 0"
    unfolding sp by (simp_all add: parked_writer_def over_pipe_def Len_def contents_def)
  from Write_contract [where input = "[1, 2]" and i = 0 and s = parked_writer and a = "Run 1"]
    hp f o le
  have 8: "threads (step (Run 1) parked_writer) ! 0 = \<lparr>op = OpWrite [1, 2], status = Ready\<rparr>"
    and 9: "threads (exec [Run 1, Run 0] parked_writer) ! 0 =
           \<lparr>op = OpWrite [1, 2], status = Done (RetWrite (length [1, 2 :: byte]) None)\<rparr>"
    and 10: "contents (pipe (exec [Run 1, Run 0] parked_writer)) =
           contents (pipe (step (Run 1) parked_writer)) @ [1, 2]"
    by blast+
  have hb: "0 < length (threads blocked_writer) \<and>
      threads blocked_writer ! 0 = \<lparr>op = OpWrite [1, 2], status = Waiting\<rparr>"
    by (simp add: blocked_writer_def)
  have l1: "1 < length (threads blocked_writer)"
    and t1: "threads blocked_writer ! 1 = \<lparr>op = OpClose, status = Ready\<rparr>"
    by (simp_all add: blocked_writer_def)
  have cb: "closed (pipe (step (Run 1) blocked_writer)) \<and> \<not> closed (pipe blocked_writer)"
    unfolding step.simps run_Close [OF l1 t1] by (simp add: blocked_writer_def over_pipe_def)
  from Write_contract [where input = "[1, 2]" and i = 0 and s = blocked_writer and a = "Run 1"]
    hb cb
  have 11: "threads (exec [Run 1, Run 0] blocked_writer) ! 0 =
     \<lparr>op = OpWrite [1, 2], status = Done (RetWrite 0 (Some ErrClosedPipe))\<rparr>"
    by blast
  have hr: "0 < length (threads ready_writer) \<and> op (threads ready_writer ! 0) = OpWrite [1, 2] \<and>
      (status (threads ready_writer ! 0) = Ready \<or> status (threads ready_writer ! 0) = Waiting)"
    by (simp add: ready_writer_def)
  have nc: "\<not> closed (pipe (exec [Run 0, Tick 3, Run 0, Spawn OpClose] ready_writer))"
  proof -
    have r0: "run 0 ready_writer =
        commit 0 ready_writer (alloc over_pipe) \<lparr>op = OpWrite [1, 2], status = Waiting\<rparr> False []"
      using h 3 5 by (simp add: run_Write status_of_def)
    then have r1: "run 0 ready_writer =
        \<lparr>pipe = alloc over_pipe, clock = 1,
         threads = [\<lparr>op = OpWrite [1, 2], status = Waiting\<rparr>], pending = []\<rparr>"
      by (simp add: commit_def ready_writer_def)
    have t: "tick 3 (run 0 ready_writer) =
        \<lparr>pipe = alloc over_pipe, clock = 3,
         threads = [\<lparr>op = OpWrite [1, 2], status = Waiting\<rparr>], pending = []\<rparr>"
      unfolding r1 by (simp add: tick_def Let_def)
    have "run 0 (tick 3 (run 0 ready_writer)) = tick 3 (run 0 ready_writer)"
      unfolding t by (rule run_not_ready) simp
    then have "exec [Run 0, Tick 3, Run 0, Spawn OpClose] ready_writer =
        spawn OpClose (tick 3 (run 0 ready_writer))" by simp
    then show ?thesis
      unfolding t by (simp add: spawn_def over_pipe_def)
  qed
  from Write_contract [where input = "[1, 2]" and i = 0 and s = ready_writer
      and acts = "[Run 0, Tick 3, Run 0, Spawn OpClose]"] hr
  have "status (threads (exec [Run 0, Tick 3, Run 0, Spawn OpClose] ready_writer) ! 0) = Ready \<or>
       status (threads (exec [Run 0, Tick 3, Run 0, Spawn OpClose] ready_writer) ! 0) = Waiting \<or>
       status (threads (exec [Run 0, Tick 3, Run 0, Spawn OpClose] ready_writer) ! 0) =
         Done (RetWrite (length [1, 2 :: byte]) None) \<or>
       (status (threads (exec [Run 0, Tick 3, Run 0, Spawn OpClose] ready_writer) ! 0) =
          Done (RetWrite 0 (Some ErrClosedPipe)) \<and>
        closed (pipe (exec [Run 0, Tick 3, Run 0, Spawn OpClose] ready_writer)))"
    by blast
  with nc
  have 12: "status (threads (exec [Run 0, Tick 3, Run 0, Spawn OpClose] ready_writer) ! 0) \<noteq>
     Done (RetWrite 0 (Some ErrClosedPipe))"
    by auto
  from 10 cn have 13: "Len (pipe (exec [Run 1, Run 0] parked_writer)) = BUF_SIZE_LIMIT + 2"
    by (simp add: Len_def)
  from 1 2 3 4 5 have a: "outcome (Write_cycle closed_pipe [1, 2]) = Returns (0, Some ErrClosedPipe) \<and>
   contents (pipe_after (Write_cycle NewBufferedPipe [1, 2])) = [1, 2] \<and>
   outcome (Write_cycle NewBufferedPipe [1, 2]) = Returns (2, None) \<and>
   outcome (Write_cycle over_pipe [1, 2]) = Waits \<and>
   threads (run 0 ready_writer) ! 0 = \<lparr>op = OpWrite [1, 2], status = Waiting\<rparr>"
    by (simp add: NewBufferedPipe_def contents_def)
  from 9 have 14: "threads (exec [Run 1, Run 0] parked_writer) ! 0 =
     \<lparr>op = OpWrite [1, 2], status = Done (RetWrite 2 None)\<rparr>" by simp
  from a 6 7 8 14 13 11 12 show ?thesis by blast
qed



text \<open>
  Claim C9 (end of stream before the deadline). On a closed pipe with an empty buffer, a
  cycle of \<open>Read\<close> and a cycle of \<open>WriteTo\<close> return count 0 and \<open>io.EOF\<close>, for
  every clock reading and every read deadline (also one that is set and has passed): the
  timeout error is not returned in that state.
\<close>

theorem eof_before_deadline:
  "closed p \<and> Len p = 0 \<longrightarrow>
     outcome (Read_cycle now p target) = Returns (0, Some EOF, target) \<and>
     outcome (fst (WriteTo_cycle now now' p w n)) = Returns (0, Some EOF) \<and>
     outcome (Read_cycle now p target) \<noteq> Returns (k, Some ErrTimeout, tg) \<and>
     outcome (fst (WriteTo_cycle now now' p w n)) \<noteq> Returns (m, Some ErrTimeout)"
  by (simp add: Read_cycle_eof WriteTo_cycle_eof)

theorem eof_before_deadline_witness:
  "rDeadline closed_pipe \<noteq> 0 \<and> rDeadline closed_pipe \<le> 10 \<and>
   outcome (Read_cycle 10 closed_pipe [0, 0]) = Returns (0, Some EOF, [0, 0]) \<and>
   outcome (fst (WriteTo_cycle 10 11 closed_pipe (\<lambda>b. (length b, None)) 4)) = Returns (0, Some EOF)"
  using eof_before_deadline [of closed_pipe 10 "[0, 0]" 11 "\<lambda>b. (length b, None)" 4]
  by (simp add: closed_pipe_def Len_def contents_def)

end
